theory Spec2Isabelle
  imports Main
begin

section \<open>Python values used by the crawler\<close>

text \<open>
  A Python \<open>str\<close> is a sequence of Unicode code points, so it is modelled as a list of
  natural numbers.  The section titles of \<open>parse_details_data\<close> contain code points above
  255, which an 8-bit \<open>char\<close> cannot hold.  \<open>ascii\<close> turns an ASCII literal into such a string.
\<close>

type_synonym pystr = "nat list"

definition ascii :: "string \<Rightarrow> pystr" where
  "ascii s = map of_char s"

text \<open>The exceptions that the modelled code paths can raise.\<close>

datatype py_error =
    AttributeError
  | IndexError
  | KeyError
  | MissingSchema
  | ConnectionError
  | URLError
  | UnidentifiedImageError
  | RuntimeError

text \<open>
  \<open>str.strip()\<close> with no argument removes leading and trailing whitespace, where whitespace
  is what \<open>str.isspace\<close> accepts.  The no-break space U+00A0 (160) is among them.
\<close>

definition isspace :: "nat \<Rightarrow> bool" where
  "isspace c \<longleftrightarrow>
     (9 \<le> c \<and> c \<le> 13) \<or> (28 \<le> c \<and> c \<le> 32) \<or> c = 133 \<or> c = 160 \<or> c = 5760 \<or>
     (8192 \<le> c \<and> c \<le> 8202) \<or> c = 8232 \<or> c = 8233 \<or> c = 8239 \<or> c = 8287 \<or>
     c = 12288"

definition strip :: "pystr \<Rightarrow> pystr" where
  "strip s = rev (dropWhile isspace (rev (dropWhile isspace s)))"

text \<open>\<open>s.replace(c, '')\<close> for a one-character \<open>c\<close> deletes every occurrence of it.\<close>

definition replace_char_empty :: "nat \<Rightarrow> pystr \<Rightarrow> pystr" where
  "replace_char_empty c s = filter (\<lambda>x. x \<noteq> c) s"

text \<open>
  \<open>s.split(sep)\<close> for a one-character separator: the pieces between the separators, in
  order; the result is never empty (\<open>''.split('-') == ['']\<close>).
\<close>

fun split :: "nat \<Rightarrow> pystr \<Rightarrow> pystr list" where
  "split sep [] = [[]]"
| "split sep (c # cs) =
     (if c = sep then [] # split sep cs
      else (case split sep cs of
              [] \<Rightarrow> [[c]]
            | w # ws \<Rightarrow> (c # w) # ws))"

text \<open>\<open>xs[i]\<close> for a non-negative literal index raises \<open>IndexError\<close> out of range.\<close>

definition index :: "'a list \<Rightarrow> nat \<Rightarrow> py_error + 'a" where
  "index xs i = (if i < length xs then Inr (xs ! i) else Inl IndexError)"

text \<open>\<open>needle in haystack\<close> on strings: \<open>needle\<close> occurs as a contiguous slice.\<close>

fun contains :: "pystr \<Rightarrow> pystr \<Rightarrow> bool" where
  "contains [] needle = (needle = [])"
| "contains (c # cs) needle =
     (take (length needle) (c # cs) = needle \<or> contains cs needle)"


section \<open>The listing page and its record\<close>

text \<open>
  The parsed listing page, as the queries of the extraction functions see it.  Each field is
  the result of one BeautifulSoup query of the source:
  \<^item> \<open>thumbnails\<close>: for every \<open>img\<close> with \<open>itemprop="thumbnail"\<close>, in document order, what
    \<open>urlopen(src)\<close> followed by \<open>Image.open\<close> gives: the decoded image or the exception;
  \<^item> \<open>marka\<close>, \<open>modell\<close>, \<open>modellcsoport\<close>: the text of the first \<open>a\<close> with that \<open>type\<close>,
    \<open>None\<close> when \<open>find\<close> returns \<open>None\<close>;
  \<^item> \<open>hirdetesadatok\<close>: the first table of that class, as its rows (\<open>tr\<close>), each row the
    texts of its \<open>td\<close> cells;
  \<^item> \<open>detail_divs\<close>: the texts of the \<open>div\<close>s of class \<open>col-xs-28 col-sm-14\<close>;
  \<^item> \<open>leiras\<close>, \<open>egyebinformacio\<close>: the text of the first \<open>div\<close> of that class.
\<close>

type_synonym image = "nat list"

record car_page =
  thumbnails :: "(py_error + image) list"
  marka :: "pystr option"
  modell :: "pystr option"
  modellcsoport :: "pystr option"
  hirdetesadatok :: "pystr list list option"
  detail_divs :: "pystr list"
  leiras :: "pystr option"
  egyebinformacio :: "pystr option"

text \<open>
  \<open>data['description']\<close> has the two fixed keys of \<open>parse_description_data\<close>.  The first
  value is a string; the second is the string \<open>''\<close> when the section is missing and a list
  of lines otherwise.
\<close>

datatype py_value = Str pystr | Lst "pystr list"

record description =
  Leiras :: pystr
  Egyeb_informacio :: py_value

text \<open>The dictionary \<open>data\<close> that \<open>parse_car_page\<close> builds, one field per key.\<close>

record listing =
  link :: pystr
  ident :: pystr
  images :: "image list"
  common :: "pystr \<rightharpoonup> pystr"
  details :: "pystr \<rightharpoonup> pystr list"
  descr :: description


section \<open>Field extraction\<close>

text \<open>
  \<open>parse_images\<close>: the loop appends the decoded images in order and stops at the first
  exception, which leaves the function.
\<close>

fun parse_images_loop :: "(py_error + image) list \<Rightarrow> image list \<Rightarrow> py_error + image list" where
  "parse_images_loop [] acc = Inr acc"
| "parse_images_loop (Inl e # rest) acc = Inl e"
| "parse_images_loop (Inr img # rest) acc = parse_images_loop rest (acc @ [img])"

definition parse_images :: "car_page \<Rightarrow> py_error + image list" where
  "parse_images page = parse_images_loop (thumbnails page) []"

text \<open>
  \<open>getText()\<close> on the result of \<open>find\<close>: calling a method on \<open>None\<close> raises
  \<open>AttributeError\<close>.
\<close>

definition getText :: "pystr option \<Rightarrow> py_error + pystr" where
  "getText el = (case el of None \<Rightarrow> Inl AttributeError | Some t \<Rightarrow> Inr t)"

text \<open>
  The body of the loop over the table rows (source lines 156 to 159): the stripped cell
  texts that are not empty, and one assignment when there are exactly two of them.
\<close>

definition row_elements :: "pystr list \<Rightarrow> pystr list" where
  "row_elements row =
     (let cols = filter (\<lambda>t. t \<noteq> []) (map strip row)
      in filter (\<lambda>ele. ele \<noteq> []) cols)"

definition parse_row :: "pystr list \<Rightarrow> (pystr \<rightharpoonup> pystr) \<Rightarrow> (pystr \<rightharpoonup> pystr)" where
  "parse_row row m =
     (case row_elements row of
        [k, v] \<Rightarrow> m(k \<mapsto> replace_char_empty 160 v)
      | _ \<Rightarrow> m)"

definition parse_rows :: "pystr list list \<Rightarrow> (pystr \<rightharpoonup> pystr) \<Rightarrow> (pystr \<rightharpoonup> pystr)" where
  "parse_rows rows m = fold parse_row rows m"

definition parse_common_data :: "car_page \<Rightarrow> py_error + (pystr \<rightharpoonup> pystr)" where
  "parse_common_data page =
     (case getText (marka page) of
        Inl e \<Rightarrow> Inl e
      | Inr brand \<Rightarrow>
     (case getText (modell page) of
        Inl e \<Rightarrow> Inl e
      | Inr model \<Rightarrow>
     (let model_group = (case modellcsoport page of None \<Rightarrow> [] | Some t \<Rightarrow> t);
          m = [ascii ''brand'' \<mapsto> brand, ascii ''model'' \<mapsto> model,
               ascii ''model_group'' \<mapsto> model_group]
      in (case hirdetesadatok page of
            None \<Rightarrow> Inl AttributeError
          | Some rows \<Rightarrow> Inr (parse_rows rows m)))))"

text \<open>
  \<open>parse_details_data\<close>.  The four section titles of the source carry accented letters
  (e acute 233, u double acute 369, u diaeresis 252, a acute 225, o acute 243); they are
  written here with their code points.
\<close>

definition titles :: "pystr list" where
  "titles =
     [ascii ''Belt'' @ [233] @ ascii ''r'',
      ascii ''M'' @ [369] @ ascii ''szaki'',
      ascii ''K'' @ [252] @ ascii ''lt'' @ [233] @ ascii ''r'',
      ascii ''Multim'' @ [233] @ ascii ''dia / Navig'' @ [225] @ ascii ''ci'' @ [243]]"

definition parse_detail ::
  "pystr \<Rightarrow> (pystr \<rightharpoonup> pystr list) \<Rightarrow> (pystr \<rightharpoonup> pystr list)" where
  "parse_detail detail m =
     fold (\<lambda>title m.
             if contains detail title
             then (let options = butlast (split 10 detail) in m(title \<mapsto> drop 1 options))
             else m)
          titles m"

definition parse_details_data :: "car_page \<Rightarrow> (pystr \<rightharpoonup> pystr list)" where
  "parse_details_data page = fold parse_detail (detail_divs page) Map.empty"

text \<open>
  \<open>parse_description_data\<close>: \<open>split('\n')[2]\<close> raises \<open>IndexError\<close> when the text has fewer
  than three lines; the slice \<open>[3:-1]\<close> never raises.
\<close>

definition parse_description_data :: "car_page \<Rightarrow> py_error + description" where
  "parse_description_data page =
     (case (case leiras page of
              None \<Rightarrow> Inr []
            | Some t \<Rightarrow> index (split 10 t) 2) of
        Inl e \<Rightarrow> Inl e
      | Inr description \<Rightarrow>
          (let else_description =
                 (case egyebinformacio page of
                    None \<Rightarrow> Str []
                  | Some t \<Rightarrow> Lst (drop 3 (butlast (split 10 t))))
           in Inr \<lparr>Leiras = description, Egyeb_informacio = else_description\<rparr>))"


section \<open>The result page and the environment\<close>

text \<open>
  A search-result page, as the driver queries it: \<open>li_next\<close> is the result of
  \<open>find('li', class_='next')\<close>, whose anchor is the result of \<open>find('a')\<close> on it, whose
  \<open>href\<close> is the result of \<open>get('href')\<close>; \<open>vehicle_hrefs\<close> are the \<open>href\<close>s of the anchors
  that match the listing pattern, in document order.
\<close>

datatype anchor = Anchor (href: "pystr option")

datatype li = Li (find_a: "anchor option")

record result_page =
  li_next :: "li option"
  vehicle_hrefs :: "pystr list"

text \<open>
  What the program reads from outside itself.  The iteration \<open>n\<close> of the driver's loop
  indexes the answers, so the site may answer the same request differently on a later page:
  \<^item> \<open>website\<close>: \<open>params['website']\<close>;
  \<^item> \<open>requests_get n url\<close>: the parsed page of \<open>requests.get(url)\<close>, or its exception;
  \<^item> \<open>requests_post n url\<close>: the parsed page of \<open>requests.post(url, ...)\<close>, or its exception;
  \<^item> \<open>iteration_order S\<close>: the order in which \<open>for vehicle_link in S\<close> visits the set;
  \<^item> \<open>finishes_after n url\<close>: the scheduling of the worker threads, as far as the driver can
    observe it: how many further times the driver's loop asks its iterator for the next
    link, after it has submitted the task of \<open>url\<close>, before that task has run to its end
    (\<open>0\<close>: the task is over before the loop goes on);
  \<^item> \<open>now n\<close>: \<open>datetime.now().strftime('%Y_%m_%d_%H_%M_%S')\<close> at the flush check;
  \<^item> \<open>data_folder_exists n\<close>: \<open>os.path.exists\<close> of the data folder at the flush check.
\<close>

record env =
  website :: pystr
  requests_get :: "nat \<Rightarrow> pystr \<Rightarrow> py_error + result_page"
  requests_post :: "nat \<Rightarrow> pystr \<Rightarrow> py_error + car_page"
  iteration_order :: "pystr set \<Rightarrow> pystr list"
  finishes_after :: "nat \<Rightarrow> pystr \<Rightarrow> nat"
  now :: "nat \<Rightarrow> pystr"
  data_folder_exists :: "nat \<Rightarrow> bool"

text \<open>\<open>requests.get\<close> of a missing \<open>href\<close> (\<open>None\<close>) raises before any request is sent.\<close>

definition get_page :: "env \<Rightarrow> nat \<Rightarrow> pystr option \<Rightarrow> py_error + result_page" where
  "get_page e n url =
     (case url of None \<Rightarrow> Inl MissingSchema | Some u \<Rightarrow> requests_get e n u)"

text \<open>
  \<open>next_page_html.find('li', class_='next').find('a')\<close>: calling \<open>find\<close> on \<open>None\<close> raises
  \<open>AttributeError\<close>.
\<close>

definition next_page_button :: "result_page \<Rightarrow> py_error + anchor option" where
  "next_page_button page =
     (case li_next page of None \<Rightarrow> Inl AttributeError | Some l \<Rightarrow> Inr (find_a l))"


section \<open>The crawler\<close>

text \<open>The four instance fields that \<open>iterate_over_available_cars\<close> initialises.\<close>

record crawler =
  vehicle_data :: "listing list"
  new_vehicle_links :: "pystr set"
  broken_vehicle_links :: "pystr set"
  processed_vehicle_links :: "pystr set"

definition init_crawler :: crawler where
  "init_crawler =
     \<lparr>vehicle_data = [], new_vehicle_links = {}, broken_vehicle_links = {},
      processed_vehicle_links = {}\<rparr>"

text \<open>What the crawler does to the outside, in order.\<close>

datatype payload = Records "listing list" | Links "pystr set"

datatype event =
    PageGet "pystr option"
  | Mkdir pystr
  | Dump pystr payload

subsection \<open>\<open>save_data\<close>\<close>

text \<open>
  The two \<open>pickle.dump\<close> calls and \<open>os.mkdir\<close> are taken to succeed; each is one event.
  The \<open>print\<close> calls of the source are left out.
\<close>

definition save_data :: "nat \<Rightarrow> bool \<Rightarrow> pystr \<Rightarrow> crawler \<Rightarrow> crawler \<times> event list" where
  "save_data limit folder_exists current_datetime_str s =
     (if length (vehicle_data s) \<ge> limit
      then (let filename = ascii ''data/'' @ current_datetime_str @ ascii ''_export.pkl''
            in (s\<lparr>vehicle_data := []\<rparr>,
                (if \<not> folder_exists then [Mkdir (ascii ''data'')] else []) @
                [Dump filename (Records (vehicle_data s)),
                 Dump (ascii ''data/broken_links.pkl'') (Links (broken_vehicle_links s))]))
      else (s, []))"

text \<open>The batch files among the events: the dumps of a record list.\<close>

fun batch_files :: "event list \<Rightarrow> (pystr \<times> listing list) list" where
  "batch_files [] = []"
| "batch_files (Dump f (Records rs) # evs) = (f, rs) # batch_files evs"
| "batch_files (ev # evs) = batch_files evs"

subsection \<open>\<open>parse_car_page\<close>\<close>

text \<open>
  The body of the \<open>try\<close> up to the last extraction call (source lines 105 to 112): either
  the finished dictionary or the first exception raised.
\<close>

definition extract_listing :: "env \<Rightarrow> nat \<Rightarrow> pystr \<Rightarrow> py_error + listing" where
  "extract_listing e n vehicle_link =
     (case requests_post e n vehicle_link of
        Inl err \<Rightarrow> Inl err
      | Inr car_page_html \<Rightarrow>
     (case parse_images car_page_html of
        Inl err \<Rightarrow> Inl err
      | Inr imgs \<Rightarrow>
     (case parse_common_data car_page_html of
        Inl err \<Rightarrow> Inl err
      | Inr com \<Rightarrow>
     (case parse_description_data car_page_html of
        Inl err \<Rightarrow> Inl err
      | Inr des \<Rightarrow>
          Inr \<lparr>link = vehicle_link, ident = last (split 45 vehicle_link), images = imgs,
               common = com, details = parse_details_data car_page_html, descr = des\<rparr>))))"

text \<open>\<open>S.remove(x)\<close> raises \<open>KeyError\<close> when \<open>x\<close> is not a member.\<close>

definition set_remove :: "'a \<Rightarrow> 'a set \<Rightarrow> py_error + 'a set" where
  "set_remove x S = (if x \<in> S then Inr (S - {x}) else Inl KeyError)"

text \<open>
  The \<open>except\<close> block (source lines 119 to 121).  The result lists the crawler after each
  statement that changes it, and the exception that leaves the block, if any.
\<close>

definition except_handler :: "pystr \<Rightarrow> crawler \<Rightarrow> crawler list \<times> py_error option" where
  "except_handler vehicle_link s =
     (case set_remove vehicle_link (new_vehicle_links s) of
        Inl err \<Rightarrow> ([], Some err)
      | Inr S \<Rightarrow>
          (let s1 = s\<lparr>new_vehicle_links := S\<rparr>;
               s2 = s1\<lparr>broken_vehicle_links := insert vehicle_link (broken_vehicle_links s1)\<rparr>
           in ([s1, s2], None)))"

text \<open>
  \<open>parse_car_page\<close>, statement by statement: the crawler after each statement that changes
  it, in order, and the exception that leaves the function, if any.  The three statements
  after the extraction (lines 114 to 116) are inside the \<open>try\<close>, so a \<open>KeyError\<close> of
  \<open>remove\<close> there enters the \<open>except\<close> block as well.
\<close>

definition parse_car_page_steps ::
  "env \<Rightarrow> nat \<Rightarrow> pystr \<Rightarrow> crawler \<Rightarrow> crawler list \<times> py_error option" where
  "parse_car_page_steps e n vehicle_link s =
     (case extract_listing e n vehicle_link of
        Inl err \<Rightarrow> except_handler vehicle_link s
      | Inr data \<Rightarrow>
          (let s1 = s\<lparr>vehicle_data := vehicle_data s @ [data]\<rparr>;
               s2 = s1\<lparr>processed_vehicle_links :=
                         insert vehicle_link (processed_vehicle_links s1)\<rparr>
           in (case set_remove vehicle_link (new_vehicle_links s2) of
                 Inr S \<Rightarrow> ([s1, s2, s2\<lparr>new_vehicle_links := S\<rparr>], None)
               | Inl err \<Rightarrow>
                   (case except_handler vehicle_link s2 of
                      (steps, raised) \<Rightarrow> ([s1, s2] @ steps, raised)))))"

text \<open>The task as a whole: the crawler it leaves behind and the exception it ends with.\<close>

definition parse_car_page :: "env \<Rightarrow> nat \<Rightarrow> pystr \<Rightarrow> crawler \<Rightarrow> crawler \<times> py_error option" where
  "parse_car_page e n vehicle_link s =
     (case parse_car_page_steps e n vehicle_link s of
        (steps, raised) \<Rightarrow> (last (s # steps), raised))"

subsection \<open>The dispatch wave\<close>

text \<open>
  Tasks that end at the same point, in the order of their submission.  An exception that
  leaves a task stays in its future, which nobody reads, so the next task runs all the
  same.  Each task is taken as a whole: interleavings of the statements of two tasks are
  not part of this model.
\<close>

definition complete_tasks :: "env \<Rightarrow> nat \<Rightarrow> pystr list \<Rightarrow> crawler \<Rightarrow> crawler" where
  "complete_tasks e n links s =
     fold (\<lambda>vehicle_link s. fst (parse_car_page e n vehicle_link s)) links s"

text \<open>
  The submitted tasks that have not ended yet, each with the number of calls of the
  iterator that it still outlasts: those that end before the coming call, and the others
  after that call.
\<close>

definition due :: "(pystr \<times> nat) list \<Rightarrow> pystr list" where
  "due running = map fst (filter (\<lambda>t. snd t = 0) running)"

definition still_running :: "(pystr \<times> nat) list \<Rightarrow> (pystr \<times> nat) list" where
  "still_running running =
     map (\<lambda>t. (fst t, snd t - 1)) (filter (\<lambda>t. snd t \<noteq> 0) running)"

text \<open>
  Source lines 61 to 63.  The \<open>for\<close> loop iterates the set \<open>new_vehicle_links\<close> itself, the
  set from which the tasks remove their links.  The iterator of a set remembers the size
  the set had when the loop began and compares it at every call, the last one included; when
  the size differs the call raises \<open>RuntimeError\<close> (Set changed size during iteration).
  The exception leaves the \<open>with\<close> block, whose exit waits for the tasks submitted so far,
  and then the driver; the links not yet visited have no task.  Without the exception the
  loop submits one task per link and the exit of the \<open>with\<close> block waits for all of them.
  \<open>size0\<close> is the remembered size, \<open>links\<close> are the links still to visit, \<open>running\<close> the
  tasks submitted and not ended.
\<close>

fun submit_loop ::
  "env \<Rightarrow> nat \<Rightarrow> nat \<Rightarrow> pystr list \<Rightarrow> (pystr \<times> nat) list \<Rightarrow> crawler \<Rightarrow>
   crawler \<times> py_error option" where
  "submit_loop e n size0 [] running s =
     (let s1 = complete_tasks e n (due running) s;
          running1 = still_running running
      in if card (new_vehicle_links s1) \<noteq> size0
         then (complete_tasks e n (map fst running1) s1, Some RuntimeError)
         else (complete_tasks e n (map fst running1) s1, None))"
| "submit_loop e n size0 (vehicle_link # links) running s =
     (let s1 = complete_tasks e n (due running) s;
          running1 = still_running running
      in if card (new_vehicle_links s1) \<noteq> size0
         then (complete_tasks e n (map fst running1) s1, Some RuntimeError)
         else submit_loop e n size0 links
                (running1 @ [(vehicle_link, finishes_after e n vehicle_link)]) s1)"

definition wave :: "env \<Rightarrow> nat \<Rightarrow> crawler \<Rightarrow> crawler \<times> py_error option" where
  "wave e n s =
     submit_loop e n (card (new_vehicle_links s)) (iteration_order e (new_vehicle_links s)) [] s"

subsection \<open>\<open>iterate_over_available_cars\<close>\<close>

text \<open>Source line 58: the links of the page are merged into \<open>new_vehicle_links\<close>.\<close>

definition update_links :: "result_page \<Rightarrow> crawler \<Rightarrow> crawler" where
  "update_links page s =
     s\<lparr>new_vehicle_links := new_vehicle_links s \<union> set (vehicle_hrefs page)\<rparr>"

datatype outcome = Returned | Raised py_error

text \<open>
  The \<open>while\<close> loop.  The button of the page is computed right after the page is fetched
  (lines 51 and 73) and tested at the head of the loop; nothing happens in between, so the
  model computes it at the head.  An exception of the wave leaves the driver before the
  flush check.  The loop may run forever (a site whose next links form a cycle), hence the
  option: \<open>None\<close> is a run that never ends.
\<close>

partial_function (option) crawl_loop ::
  "env \<Rightarrow> nat \<Rightarrow> result_page \<Rightarrow> crawler \<Rightarrow> event list \<Rightarrow> (outcome \<times> crawler \<times> event list) option"
where
  "crawl_loop e n next_page_html s evs =
     (case next_page_button next_page_html of
        Inl err \<Rightarrow> Some (Raised err, s, evs)
      | Inr None \<Rightarrow> Some (Returned, s, evs)
      | Inr (Some button) \<Rightarrow>
          (let s1 = update_links next_page_html s;
               waved = wave e n s1
           in (case snd waved of
                 Some err \<Rightarrow> Some (Raised err, fst waved, evs)
               | None \<Rightarrow>
                   (let saved = save_data 1000 (data_folder_exists e n) (now e n) (fst waved);
                        next_page_url = href button;
                        evs' = evs @ snd saved @ [PageGet next_page_url]
                    in (case get_page e (Suc n) next_page_url of
                          Inl err \<Rightarrow> Some (Raised err, fst saved, evs')
                        | Inr page \<Rightarrow> crawl_loop e (Suc n) page (fst saved) evs')))))"

definition iterate_over_available_cars :: "env \<Rightarrow> (outcome \<times> crawler \<times> event list) option" where
  "iterate_over_available_cars e =
     (let next_page_url = Some (website e);
          evs = [PageGet next_page_url]
      in (case get_page e 0 next_page_url of
            Inl err \<Rightarrow> Some (Raised err, init_crawler, evs)
          | Inr page \<Rightarrow> crawl_loop e 0 page init_crawler evs))"


section \<open>Concrete inputs\<close>

text \<open>The inputs at which the theorems below are evaluated.\<close>

definition link_a :: pystr where
  "link_a = ascii ''/szemelyauto/opel-astra-1''"

definition listing_a :: listing where
  "listing_a =
     \<lparr>link = link_a, ident = ascii ''1'', images = [], common = Map.empty,
      details = Map.empty, descr = \<lparr>Leiras = [], Egyeb_informacio = Str []\<rparr>\<rparr>"

definition flush_state :: crawler where
  "flush_state =
     \<lparr>vehicle_data = [listing_a], new_vehicle_links = {ascii ''n''},
      broken_vehicle_links = {ascii ''b''}, processed_vehicle_links = {link_a}\<rparr>"

definition example_rows :: "pystr list list" where
  "example_rows =
     [[ascii ''Price'', ascii ''10000''], [ascii ''Color''], [ascii ''Year'', ascii ''2020'']]"

definition good_page :: car_page where
  "good_page =
     \<lparr>thumbnails = [], marka = Some (ascii ''Opel''), modell = Some (ascii ''Astra''),
      modellcsoport = None, hirdetesadatok = Some example_rows, detail_divs = [],
      leiras = None, egyebinformacio = None\<rparr>"

definition page_one :: result_page where
  "page_one =
     \<lparr>li_next = Some (Li (Some (Anchor (Some (ascii ''p2''))))), vehicle_hrefs = [link_a]\<rparr>"

definition page_two :: result_page where
  "page_two =
     \<lparr>li_next = Some (Li (Some (Anchor (Some (ascii ''p3''))))), vehicle_hrefs = [link_a]\<rparr>"

definition last_page :: result_page where
  "last_page = \<lparr>li_next = Some (Li None), vehicle_hrefs = [ascii ''/szemelyauto/last-9'']\<rparr>"

text \<open>
  A site of three result pages whose first two pages both list \<open>link_a\<close>; the listing
  page answers during the first wave and the connection fails during the second.
\<close>

definition env_relisted :: env where
  "env_relisted =
     \<lparr>website = ascii ''p1'',
      requests_get = (\<lambda>n u. if u = ascii ''p1'' then Inr page_one
                             else if u = ascii ''p2'' then Inr page_two else Inr last_page),
      requests_post = (\<lambda>n l. if n = 0 then Inr good_page else Inl ConnectionError),
      iteration_order = (\<lambda>S. if link_a \<in> S then [link_a] else []),
      finishes_after = (\<lambda>n l. 1),
      now = (\<lambda>n. ascii ''2020_01_01_00_00_00''),
      data_folder_exists = (\<lambda>n. True)\<rparr>"

definition pending_state :: crawler where
  "pending_state = init_crawler\<lparr>new_vehicle_links := {link_a}\<rparr>"

definition processed_state :: crawler where
  "processed_state = init_crawler\<lparr>processed_vehicle_links := {link_a}\<rparr>"

text \<open>The three link sets are pairwise disjoint.\<close>

definition disjoint3 :: "crawler \<Rightarrow> bool" where
  "disjoint3 s \<longleftrightarrow>
     new_vehicle_links s \<inter> processed_vehicle_links s = {} \<and>
     new_vehicle_links s \<inter> broken_vehicle_links s = {} \<and>
     processed_vehicle_links s \<inter> broken_vehicle_links s = {}"

text \<open>The dictionary that the extraction builds from \<open>good_page\<close> for \<open>link_a\<close>.\<close>

definition good_listing :: listing where
  "good_listing =
     \<lparr>link = link_a, ident = ascii ''1'', images = [],
      common = [ascii ''brand'' \<mapsto> ascii ''Opel'', ascii ''model'' \<mapsto> ascii ''Astra'',
                ascii ''model_group'' \<mapsto> [], ascii ''Price'' \<mapsto> ascii ''10000'',
                ascii ''Year'' \<mapsto> ascii ''2020''],
      details = Map.empty, descr = \<lparr>Leiras = [], Egyeb_informacio = Str []\<rparr>\<rparr>"

text \<open>A result page without any pager: \<open>find('li', class_='next')\<close> returns \<open>None\<close>.\<close>

definition no_pager_page :: result_page where
  "no_pager_page = \<lparr>li_next = None, vehicle_hrefs = [link_a]\<rparr>"

definition env_no_pager :: env where
  "env_no_pager = env_relisted\<lparr>requests_get := (\<lambda>n u. Inr no_pager_page)\<rparr>"

text \<open>A site whose first page answers and whose second page cannot be fetched.\<close>

definition env_page_two_down :: env where
  "env_page_two_down =
     env_relisted\<lparr>requests_get :=
       (\<lambda>n u. if u = ascii ''p1'' then Inr page_one else Inl ConnectionError)\<rparr>"

definition env_site_down :: env where
  "env_site_down = env_relisted\<lparr>requests_get := (\<lambda>n u. Inl ConnectionError)\<rparr>"

text \<open>
  The bookkeeping of a group of completed tasks: the links \<open>D\<close> have left the pending set,
  each of them is now in the processed or in the broken set and none was newly put into
  both, and nothing else has changed in the three sets.
\<close>

definition moves :: "crawler \<Rightarrow> pystr set \<Rightarrow> crawler \<Rightarrow> bool" where
  "moves s D s' \<longleftrightarrow>
     D \<subseteq> new_vehicle_links s \<and>
     new_vehicle_links s' = new_vehicle_links s - D \<and>
     processed_vehicle_links s \<subseteq> processed_vehicle_links s' \<and>
     processed_vehicle_links s' \<subseteq> processed_vehicle_links s \<union> D \<and>
     broken_vehicle_links s \<subseteq> broken_vehicle_links s' \<and>
     broken_vehicle_links s' \<subseteq> broken_vehicle_links s \<union> D \<and>
     D \<subseteq> processed_vehicle_links s' \<union> broken_vehicle_links s' \<and>
     (processed_vehicle_links s' - processed_vehicle_links s) \<inter>
     (broken_vehicle_links s' - broken_vehicle_links s) = {}"

definition link_b :: pystr where
  "link_b = ascii ''/szemelyauto/ford-focus-2''"

text \<open>
  A site whose first page lists two links, whose listing requests fail at once (a relative
  \<open>href\<close> makes \<open>requests.post\<close> raise before anything is sent), each task ending before
  the driver's loop goes on.
\<close>

definition page_two_links :: result_page where
  "page_two_links =
     \<lparr>li_next = Some (Li (Some (Anchor (Some (ascii ''p2''))))),
      vehicle_hrefs = [link_a, link_b]\<rparr>"

definition env_fast_failure :: env where
  "env_fast_failure =
     \<lparr>website = ascii ''p1'',
      requests_get = (\<lambda>n u. Inr page_two_links),
      requests_post = (\<lambda>n l. Inl MissingSchema),
      iteration_order = (\<lambda>S. filter (\<lambda>l. l \<in> S) [link_a, link_b]),
      finishes_after = (\<lambda>n l. 0),
      now = (\<lambda>n. ascii ''2020_01_01_00_00_00''),
      data_folder_exists = (\<lambda>n. True)\<rparr>"



section \<open>The table rows of the common data\<close>





lemma row_elements_example:
  "row_elements [ascii ''Price'', ascii ''10000''] = [ascii ''Price'', ascii ''10000'']"
  "row_elements [ascii ''Color''] = [ascii ''Color'']"
  "row_elements [ascii ''Year'', ascii ''2020''] = [ascii ''Year'', ascii ''2020'']"
  by (simp_all add: row_elements_def strip_def isspace_def ascii_def)

lemma parse_rows_example:
  "parse_rows example_rows m =
     m(ascii ''Price'' \<mapsto> ascii ''10000'', ascii ''Year'' \<mapsto> ascii ''2020'')"
  unfolding example_rows_def parse_rows_def
  by (simp add: parse_row_def row_elements_example)
     (simp add: replace_char_empty_def ascii_def)



section \<open>The flush check\<close>

text \<open>
  C5.  Below the limit \<open>save_data\<close> writes nothing and leaves the crawler as it is.  At or
  above the limit it writes exactly one batch file, named by the timestamp and holding the
  whole buffer, and the buffer is empty afterwards.
\<close>

theorem save_data_threshold:
  "(length (vehicle_data s) < limit \<longrightarrow> save_data limit ex ts s = (s, [])) \<and>
   (limit \<le> length (vehicle_data s) \<longrightarrow>
      batch_files (snd (save_data limit ex ts s)) =
        [(ascii ''data/'' @ ts @ ascii ''_export.pkl'', vehicle_data s)] \<and>
      vehicle_data (fst (save_data limit ex ts s)) = [])"
  by (simp add: save_data_def Let_def)

theorem save_data_threshold_witness:
  "save_data 2 False (ascii ''2020_01_01_00_00_00'') (init_crawler\<lparr>vehicle_data := [listing_a]\<rparr>) =
     (init_crawler\<lparr>vehicle_data := [listing_a]\<rparr>, []) \<and>
   batch_files (snd (save_data 1 False (ascii ''2020_01_01_00_00_00'')
       (init_crawler\<lparr>vehicle_data := [listing_a]\<rparr>))) =
     [(ascii ''data/'' @ ascii ''2020_01_01_00_00_00'' @ ascii ''_export.pkl'', [listing_a])] \<and>
   vehicle_data (fst (save_data 1 False (ascii ''2020_01_01_00_00_00'')
       (init_crawler\<lparr>vehicle_data := [listing_a]\<rparr>))) = []"
  using save_data_threshold [of "init_crawler\<lparr>vehicle_data := [listing_a]\<rparr>" 2 False
      "ascii ''2020_01_01_00_00_00''"]
    save_data_threshold [of "init_crawler\<lparr>vehicle_data := [listing_a]\<rparr>" 1 False
      "ascii ''2020_01_01_00_00_00''"]
  by simp

text \<open>
  C10.  A flush that fires changes the record buffer only: the crawler afterwards is the
  crawler before with an empty buffer, so the three link sets are the same.
\<close>

theorem save_data_frame:
  "limit \<le> length (vehicle_data s) \<Longrightarrow>
     fst (save_data limit ex ts s) = s\<lparr>vehicle_data := []\<rparr> \<and>
     new_vehicle_links (fst (save_data limit ex ts s)) = new_vehicle_links s \<and>
     processed_vehicle_links (fst (save_data limit ex ts s)) = processed_vehicle_links s \<and>
     broken_vehicle_links (fst (save_data limit ex ts s)) = broken_vehicle_links s"
  by (simp add: save_data_def Let_def)

theorem save_data_frame_witness:
  "1 \<le> length (vehicle_data flush_state) \<and>
   fst (save_data 1 True (ascii ''t'') flush_state) = flush_state\<lparr>vehicle_data := []\<rparr> \<and>
   new_vehicle_links (fst (save_data 1 True (ascii ''t'') flush_state)) = {ascii ''n''} \<and>
   processed_vehicle_links (fst (save_data 1 True (ascii ''t'') flush_state)) = {link_a} \<and>
   broken_vehicle_links (fst (save_data 1 True (ascii ''t'') flush_state)) = {ascii ''b''}"
proof -
  have h: "1 \<le> length (vehicle_data flush_state)" by (simp add: flush_state_def)
  show ?thesis
    using h save_data_frame [OF h, of True "ascii ''t''"] by (simp add: flush_state_def)
qed

section \<open>One extraction task\<close>

lemma ident_link_a: "last (split 45 link_a) = ascii ''1''"
  by (simp add: link_a_def ascii_def)

lemma extract_good_listing: "extract_listing env_relisted 0 link_a = Inr good_listing"
  by (simp add: extract_listing_def env_relisted_def good_page_def parse_images_def
      parse_common_data_def getText_def parse_description_data_def parse_rows_example
      parse_details_data_def good_listing_def ident_link_a)

lemma extract_bad: "extract_listing env_relisted 1 link_a = Inl ConnectionError"
  by (simp add: extract_listing_def env_relisted_def)

lemma parse_car_page_failure:
  assumes "vehicle_link \<in> new_vehicle_links s" "extract_listing e n vehicle_link = Inl err"
  shows "parse_car_page e n vehicle_link s =
     (s\<lparr>new_vehicle_links := new_vehicle_links s - {vehicle_link},
        broken_vehicle_links := insert vehicle_link (broken_vehicle_links s)\<rparr>, None)"
  using assms
  by (simp add: parse_car_page_def parse_car_page_steps_def except_handler_def set_remove_def
      Let_def)

lemma parse_car_page_success:
  assumes "vehicle_link \<in> new_vehicle_links s" "extract_listing e n vehicle_link = Inr data"
  shows "parse_car_page e n vehicle_link s =
     (s\<lparr>vehicle_data := vehicle_data s @ [data],
        processed_vehicle_links := insert vehicle_link (processed_vehicle_links s),
        new_vehicle_links := new_vehicle_links s - {vehicle_link}\<rparr>, None)"
  using assms
  by (simp add: parse_car_page_def parse_car_page_steps_def except_handler_def set_remove_def
      Let_def)

text \<open>
  Outside a wave: for a link that is not pending the \<open>remove\<close> of the \<open>except\<close> block
  raises itself, and that \<open>KeyError\<close> leaves the task.
\<close>

lemma parse_car_page_not_pending:
  assumes "vehicle_link \<notin> new_vehicle_links s" "extract_listing e n vehicle_link = Inl err"
  shows "parse_car_page e n vehicle_link s = (s, Some KeyError)"
  using assms
  by (simp add: parse_car_page_def parse_car_page_steps_def except_handler_def set_remove_def)

lemma complete_tasks_Cons:
  "complete_tasks e n (l # rest) s = complete_tasks e n rest (fst (parse_car_page e n l s))"
  by (simp add: complete_tasks_def)

section \<open>Merging the links of a page\<close>

text \<open>
  C2 as stated fails: a link that is in the processed set and not in the pending set enters
  the pending set again when a page lists it.
\<close>

theorem update_links_readds_counterexample:
  "link_a \<in> processed_vehicle_links processed_state \<and>
   link_a \<notin> new_vehicle_links processed_state \<and>
   link_a \<in> new_vehicle_links (update_links page_two processed_state)"
  by (simp add: processed_state_def init_crawler_def update_links_def page_two_def)

text \<open>
  C2, amended.  The merge is the union of the pending set with the links of the page: a
  link already pending is not added a second time, every other link of the page enters the
  pending set whether or not it is in the processed or the broken set, and those two sets
  and the buffer are not touched.
\<close>

theorem update_links_union:
  "new_vehicle_links (update_links page s) = new_vehicle_links s \<union> set (vehicle_hrefs page) \<and>
   processed_vehicle_links (update_links page s) = processed_vehicle_links s \<and>
   broken_vehicle_links (update_links page s) = broken_vehicle_links s \<and>
   vehicle_data (update_links page s) = vehicle_data s"
  by (simp add: update_links_def)


section \<open>The three sets during one task\<close>

lemma steps_failure:
  assumes "l \<in> new_vehicle_links s" "extract_listing e n l = Inl err"
  shows "fst (parse_car_page_steps e n l s) =
     [s\<lparr>new_vehicle_links := new_vehicle_links s - {l}\<rparr>,
      s\<lparr>new_vehicle_links := new_vehicle_links s - {l},
        broken_vehicle_links := insert l (broken_vehicle_links s)\<rparr>]"
  using assms
  by (simp add: parse_car_page_steps_def except_handler_def set_remove_def Let_def)

lemma steps_success:
  assumes "l \<in> new_vehicle_links s" "extract_listing e n l = Inr data"
  shows "fst (parse_car_page_steps e n l s) =
     [s\<lparr>vehicle_data := vehicle_data s @ [data]\<rparr>,
      s\<lparr>vehicle_data := vehicle_data s @ [data],
        processed_vehicle_links := insert l (processed_vehicle_links s)\<rparr>,
      s\<lparr>vehicle_data := vehicle_data s @ [data],
        processed_vehicle_links := insert l (processed_vehicle_links s),
        new_vehicle_links := new_vehicle_links s - {l}\<rparr>]"
  using assms
  by (simp add: parse_car_page_steps_def except_handler_def set_remove_def Let_def)


text \<open>
  C3 at a pending link whose extraction succeeds, the three sets disjoint before the task:
  the link is added to the processed set (line 115) before it is removed from the pending
  set (line 116), so after the second statement of the task it is in both.  The \<open>except\<close>
  block removes first and adds then.
\<close>

theorem success_path_link_in_two_sets:
  "disjoint3 pending_state \<and>
   link_a \<in> new_vehicle_links (fst (parse_car_page_steps env_relisted 0 link_a pending_state) ! 1) \<and>
   link_a \<in> processed_vehicle_links
              (fst (parse_car_page_steps env_relisted 0 link_a pending_state) ! 1)"
proof -
  have l: "link_a \<in> new_vehicle_links pending_state" by (simp add: pending_state_def)
  show ?thesis
    unfolding steps_success [OF l extract_good_listing]
    by (simp add: disjoint3_def pending_state_def init_crawler_def)
qed


section \<open>The dispatch wave\<close>

lemma task_step:
  assumes "l \<in> new_vehicle_links s"
  shows "snd (parse_car_page e n l s) = None \<and>
         new_vehicle_links (fst (parse_car_page e n l s)) = new_vehicle_links s - {l} \<and>
         ((processed_vehicle_links (fst (parse_car_page e n l s)) = insert l (processed_vehicle_links s) \<and>
           broken_vehicle_links (fst (parse_car_page e n l s)) = broken_vehicle_links s) \<or>
          (broken_vehicle_links (fst (parse_car_page e n l s)) = insert l (broken_vehicle_links s) \<and>
           processed_vehicle_links (fst (parse_car_page e n l s)) = processed_vehicle_links s))"
proof (cases "extract_listing e n l")
  case (Inl err)
  show ?thesis by (simp add: parse_car_page_failure [OF assms Inl])
next
  case (Inr data)
  show ?thesis by (simp add: parse_car_page_success [OF assms Inr])
qed

text \<open>The bookkeeping of one step of the wave, on plain sets.\<close>

lemma wave_step_sets:
  assumes "N1 = N - {l}" "l \<notin> R"
    and "(P1 = insert l P \<and> B1 = B) \<or> (B1 = insert l B \<and> P1 = P)"
    and "N' = N1 - R" "P1 \<subseteq> P'" "P' \<subseteq> P1 \<union> R" "B1 \<subseteq> B'" "B' \<subseteq> B1 \<union> R"
    and "R \<subseteq> P' \<union> B'" "(P' - P1) \<inter> (B' - B1) = {}"
  shows "N' = N - insert l R \<and> P \<subseteq> P' \<and> P' \<subseteq> P \<union> insert l R \<and> B \<subseteq> B' \<and>
         B' \<subseteq> B \<union> insert l R \<and> insert l R \<subseteq> P' \<union> B' \<and> (P' - P) \<inter> (B' - B) = {}"
proof -
  have 1: "N' = N - insert l R" using assms(1,4) by blast
  from assms(3) show ?thesis
  proof (elim disjE conjE)
    assume a: "P1 = insert l P" "B1 = B"
    have "l \<notin> B' - B" using assms(2,8) a
      by blast
    then show ?thesis using 1 assms(2,5-10) unfolding a by blast
  next
    assume a: "B1 = insert l B" "P1 = P"
    then show ?thesis using 1 assms(2,5-10) unfolding a by blast
  qed
qed

text \<open>
  Induction over the links of the wave, the crawler generalised: every task finds its link
  pending, since the links are distinct and each task removes only its own.
\<close>

lemma complete_tasks_invariant:
  "distinct links \<Longrightarrow> set links \<subseteq> new_vehicle_links s \<Longrightarrow>
     new_vehicle_links (complete_tasks e n links s) = new_vehicle_links s - set links \<and>
     processed_vehicle_links s \<subseteq> processed_vehicle_links (complete_tasks e n links s) \<and>
     processed_vehicle_links (complete_tasks e n links s) \<subseteq> processed_vehicle_links s \<union> set links \<and>
     broken_vehicle_links s \<subseteq> broken_vehicle_links (complete_tasks e n links s) \<and>
     broken_vehicle_links (complete_tasks e n links s) \<subseteq> broken_vehicle_links s \<union> set links \<and>
     set links \<subseteq> processed_vehicle_links (complete_tasks e n links s) \<union>
                  broken_vehicle_links (complete_tasks e n links s) \<and>
     (processed_vehicle_links (complete_tasks e n links s) - processed_vehicle_links s) \<inter>
     (broken_vehicle_links (complete_tasks e n links s) - broken_vehicle_links s) = {}"
proof (induction links arbitrary: s)
  case Nil
  show ?case by (simp add: complete_tasks_def)
next
  case (Cons l rest)
  define s1 where "s1 = fst (parse_car_page e n l s)"
  define s' where "s' = complete_tasks e n rest s1"
  from Cons.prems have l: "l \<in> new_vehicle_links s" and nl: "l \<notin> set rest"
    and d: "distinct rest" and sub: "set rest \<subseteq> new_vehicle_links s"
    by auto
  have st: "new_vehicle_links s1 = new_vehicle_links s - {l}"
    "(processed_vehicle_links s1 = insert l (processed_vehicle_links s) \<and>
      broken_vehicle_links s1 = broken_vehicle_links s) \<or>
     (broken_vehicle_links s1 = insert l (broken_vehicle_links s) \<and>
      processed_vehicle_links s1 = processed_vehicle_links s)"
    using task_step [OF l, of e n] unfolding s1_def by blast+
  from st(1) sub nl have sub1: "set rest \<subseteq> new_vehicle_links s1" by blast
  have IH: "new_vehicle_links s' = new_vehicle_links s1 - set rest"
    "processed_vehicle_links s1 \<subseteq> processed_vehicle_links s'"
    "processed_vehicle_links s' \<subseteq> processed_vehicle_links s1 \<union> set rest"
    "broken_vehicle_links s1 \<subseteq> broken_vehicle_links s'"
    "broken_vehicle_links s' \<subseteq> broken_vehicle_links s1 \<union> set rest"
    "set rest \<subseteq> processed_vehicle_links s' \<union> broken_vehicle_links s'"
    "(processed_vehicle_links s' - processed_vehicle_links s1) \<inter>
     (broken_vehicle_links s' - broken_vehicle_links s1) = {}"
    using Cons.IH [OF d sub1] unfolding s'_def by blast+
  have eq: "complete_tasks e n (l # rest) s = s'"
    unfolding s'_def s1_def by (rule complete_tasks_Cons)
  show ?case
    unfolding eq list.set
    by (rule wave_step_sets [OF st(1) nl st(2) IH])
qed

lemma wave_disjoint_sets:
  assumes "N \<inter> P = {}" "N \<inter> B = {}" "P \<inter> B = {}"
    and "N' = {}" "P \<subseteq> P'" "P' \<subseteq> P \<union> N" "B \<subseteq> B'" "B' \<subseteq> B \<union> N"
    and "(P' - P) \<inter> (B' - B) = {}"
  shows "N' \<inter> P' = {} \<and> N' \<inter> B' = {} \<and> P' \<inter> B' = {}"
  using assms by blast


lemma complete_tasks_moves:
  "distinct links \<Longrightarrow> set links \<subseteq> new_vehicle_links s \<Longrightarrow>
     moves s (set links) (complete_tasks e n links s)"
  unfolding moves_def using complete_tasks_invariant [of links s e n] by blast

lemma moves_sets_trans:
  assumes "D1 \<subseteq> N" "N1 = N - D1" "P \<subseteq> P1" "P1 \<subseteq> P \<union> D1" "B \<subseteq> B1" "B1 \<subseteq> B \<union> D1"
    "D1 \<subseteq> P1 \<union> B1" "(P1 - P) \<inter> (B1 - B) = {}"
    and "D2 \<subseteq> N1" "N2 = N1 - D2" "P1 \<subseteq> P2" "P2 \<subseteq> P1 \<union> D2" "B1 \<subseteq> B2" "B2 \<subseteq> B1 \<union> D2"
    "D2 \<subseteq> P2 \<union> B2" "(P2 - P1) \<inter> (B2 - B1) = {}"
  shows "D1 \<union> D2 \<subseteq> N \<and> N2 = N - (D1 \<union> D2) \<and> P \<subseteq> P2 \<and> P2 \<subseteq> P \<union> (D1 \<union> D2) \<and>
         B \<subseteq> B2 \<and> B2 \<subseteq> B \<union> (D1 \<union> D2) \<and> D1 \<union> D2 \<subseteq> P2 \<union> B2 \<and>
         (P2 - P) \<inter> (B2 - B) = {}"
proof -
  have dis: "D1 \<inter> D2 = {}" using assms(2,9) by blast
  have 1: "D1 \<union> D2 \<subseteq> N" using assms(1,2,9) by blast
  have 2: "N2 = N - (D1 \<union> D2)" using assms(2,10) by blast
  have 3: "P \<subseteq> P2" "B \<subseteq> B2" using assms(3,5,11,13) by blast+
  have 4: "P2 \<subseteq> P \<union> (D1 \<union> D2)" "B2 \<subseteq> B \<union> (D1 \<union> D2)" using assms(4,6,12,14) by blast+
  have 5: "D1 \<union> D2 \<subseteq> P2 \<union> B2" using assms(7,11,13,15) by blast
  have 6: "(P2 - P) \<inter> (B2 - B) = {}"
  proof (rule ccontr)
    assume "(P2 - P) \<inter> (B2 - B) \<noteq> {}"
    then obtain x where x: "x \<in> P2" "x \<notin> P" "x \<in> B2" "x \<notin> B" by blast
    show False
    proof (cases "x \<in> P1")
      case True
      then have d1: "x \<in> D1" using x(2) assms(4) by blast
      then have nb: "x \<notin> B1" using True x(2,4) assms(8) by blast
      then have "x \<in> D2" using x(3) assms(14) by blast
      then show False using d1 dis by blast
    next
      case False
      then have d2: "x \<in> D2" using x(1) assms(12) by blast
      show False
      proof (cases "x \<in> B1")
        case True
        then have "x \<in> D1" using x(4) assms(6) by blast
        then show False using d2 dis by blast
      next
        case nb: False
        then show False using False x(1,3) assms(16) by blast
      qed
    qed
  qed
  show ?thesis using 1 2 3 4 5 6 by blast
qed

lemma moves_trans:
  assumes "moves s D1 s1" "moves s1 D2 s2"
  shows "moves s (D1 \<union> D2) s2"
  using assms unfolding moves_def
  by (elim conjE) (rule moves_sets_trans)

lemma names_still_running:
  "map fst (still_running running) = map fst (filter (\<lambda>t. snd t \<noteq> 0) running)"
  by (simp add: still_running_def comp_def)

lemma due_still_running:
  assumes "distinct (map fst running)"
  shows "distinct (due running)"
    and "distinct (map fst (still_running running))"
    and "set (due running) \<union> set (map fst (still_running running)) = set (map fst running)"
    and "set (due running) \<inter> set (map fst (still_running running)) = {}"
proof -
  show "distinct (due running)"
    unfolding due_def using assms by (rule distinct_map_filter)
  show "distinct (map fst (still_running running))"
    unfolding names_still_running using assms by (rule distinct_map_filter)
  show "set (due running) \<union> set (map fst (still_running running)) = set (map fst running)"
    unfolding names_still_running due_def by auto
  have inj: "inj_on fst (set running)" using assms by (simp add: distinct_map)
  show "set (due running) \<inter> set (map fst (still_running running)) = {}"
  proof (rule ccontr)
    assume "set (due running) \<inter> set (map fst (still_running running)) \<noteq> {}"
    then obtain x where "x \<in> set (due running)" "x \<in> set (map fst (still_running running))"
      by blast
    then obtain t u where t: "t \<in> set running" "snd t = 0" "fst t = x"
      and u: "u \<in> set running" "snd u \<noteq> 0" "fst u = x"
      unfolding names_still_running due_def by auto
    from inj t(1,3) u(1,3) have "t = u" by (auto dest: inj_onD)
    with t(2) u(2) show False by simp
  qed
qed

text \<open>One call of the iterator: the tasks that are due end, the others go on.\<close>

lemma arrive_moves:
  assumes "distinct (map fst running @ links)"
    and "set (map fst running) \<union> set links \<subseteq> new_vehicle_links s"
  shows "moves s (set (due running)) (complete_tasks e n (due running) s)"
    and "distinct (map fst (still_running running) @ links)"
    and "set (map fst (still_running running)) \<union> set links \<subseteq>
           new_vehicle_links (complete_tasks e n (due running) s)"
    and "moves s (set (map fst running))
           (complete_tasks e n (map fst (still_running running))
              (complete_tasks e n (due running) s))"
proof -
  have d: "distinct (map fst running)" using assms(1) by simp
  note ds = due_still_running [OF d]
  have sub: "set (due running) \<subseteq> new_vehicle_links s" using ds(3) assms(2) by blast
  show m1: "moves s (set (due running)) (complete_tasks e n (due running) s)"
    by (rule complete_tasks_moves [OF ds(1) sub])
  then have n1: "new_vehicle_links (complete_tasks e n (due running) s) =
      new_vehicle_links s - set (due running)"
    by (simp add: moves_def)
  have dl: "set (map fst running) \<inter> set links = {}" using assms(1) by simp
  show "distinct (map fst (still_running running) @ links)"
    using ds(2,3) dl assms(1) by auto
  show s3: "set (map fst (still_running running)) \<union> set links \<subseteq>
           new_vehicle_links (complete_tasks e n (due running) s)"
    unfolding n1 using ds(3,4) dl assms(2) by blast
  have "moves (complete_tasks e n (due running) s) (set (map fst (still_running running)))
           (complete_tasks e n (map fst (still_running running))
              (complete_tasks e n (due running) s))"
    by (rule complete_tasks_moves [OF ds(2)]) (use s3 in blast)
  from moves_trans [OF m1 this] show "moves s (set (map fst running))
           (complete_tasks e n (map fst (still_running running))
              (complete_tasks e n (due running) s))"
    unfolding ds(3) .
qed

lemma submit_loop_moves:
  assumes "distinct (map fst running @ links)"
    and "set (map fst running) \<union> set links \<subseteq> new_vehicle_links s"
  shows "\<exists>D. moves s D (fst (submit_loop e n size0 links running s)) \<and>
             set (map fst running) \<subseteq> D \<and> D \<subseteq> set (map fst running) \<union> set links \<and>
             (snd (submit_loop e n size0 links running s) = None \<longrightarrow>
                D = set (map fst running) \<union> set links) \<and>
             (snd (submit_loop e n size0 links running s) = None \<or>
              snd (submit_loop e n size0 links running s) = Some RuntimeError)"
  using assms
proof (induction links arbitrary: running s)
  case Nil
  note a = arrive_moves [OF Nil.prems]
  show ?case
    using a(4) by (intro exI [of _ "set (map fst running)"]) (simp add: Let_def)
next
  case (Cons l links)
  note a = arrive_moves [OF Cons.prems]
  define s1 where "s1 = complete_tasks e n (due running) s"
  define r1 where "r1 = still_running running"
  show ?case
  proof (cases "card (new_vehicle_links s1) \<noteq> size0")
    case True
    then have res: "submit_loop e n size0 (l # links) running s =
        (complete_tasks e n (map fst r1) s1, Some RuntimeError)"
      by (simp add: Let_def s1_def r1_def)
    show ?thesis
      unfolding res using a(4)
      by (intro exI [of _ "set (map fst running)"]) (auto simp: s1_def r1_def)
  next
    case False
    then have res: "submit_loop e n size0 (l # links) running s =
        submit_loop e n size0 links (r1 @ [(l, finishes_after e n l)]) s1"
      by (simp add: Let_def s1_def r1_def)
    have p1: "distinct (map fst (r1 @ [(l, finishes_after e n l)]) @ links)"
      using a(2) by (simp add: r1_def)
    have p2: "set (map fst (r1 @ [(l, finishes_after e n l)])) \<union> set links \<subseteq>
        new_vehicle_links s1"
      using a(3) by (simp add: r1_def s1_def)
    from Cons.IH [OF p1 p2] obtain D' where D':
      "moves s1 D' (fst (submit_loop e n size0 links (r1 @ [(l, finishes_after e n l)]) s1))"
      "set (map fst (r1 @ [(l, finishes_after e n l)])) \<subseteq> D'"
      "D' \<subseteq> set (map fst (r1 @ [(l, finishes_after e n l)])) \<union> set links"
      "snd (submit_loop e n size0 links (r1 @ [(l, finishes_after e n l)]) s1) = None \<longrightarrow>
         D' = set (map fst (r1 @ [(l, finishes_after e n l)])) \<union> set links"
      "snd (submit_loop e n size0 links (r1 @ [(l, finishes_after e n l)]) s1) = None \<or>
       snd (submit_loop e n size0 links (r1 @ [(l, finishes_after e n l)]) s1) =
         Some RuntimeError"
      by (elim exE conjE) auto
    have d: "distinct (map fst running)" using Cons.prems(1) by simp
    note ds = due_still_running [OF d, folded r1_def]
    have m: "moves s (set (due running) \<union> D')
        (fst (submit_loop e n size0 links (r1 @ [(l, finishes_after e n l)]) s1))"
      by (rule moves_trans [OF a(1) [where e = e and n = n, folded s1_def] D'(1)])
    have names: "set (map fst (r1 @ [(l, finishes_after e n l)])) = insert l (set (map fst r1))"
      by simp
    show ?thesis
      unfolding res
      apply (intro exI [of _ "set (due running) \<union> D'"] conjI m)
      subgoal using D'(2) ds(3) unfolding names by blast
      subgoal using D'(3) ds(3) unfolding names by auto
      subgoal using D'(4) ds(3) unfolding names by auto
      subgoal by (rule D'(5))
      done
  qed
qed

lemma due_empty: "\<forall>t \<in> set running. 0 < snd t \<Longrightarrow> due running = []"
  by (auto simp: due_def filter_empty_conv)

lemma complete_tasks_Nil: "complete_tasks e n [] s = s"
  by (simp add: complete_tasks_def)

text \<open>
  When every task outlasts the rest of the loop, no call of the iterator sees a changed
  set: induction over the links still to visit.
\<close>

lemma submit_loop_returns:
  assumes "\<forall>t \<in> set running. length links < snd t"
    and "\<forall>l \<in> set links. length links \<le> finishes_after e n l"
    and "card (new_vehicle_links s) = size0"
  shows "snd (submit_loop e n size0 links running s) = None"
  using assms
proof (induction links arbitrary: running)
  case Nil
  then have "due running = []" by (intro due_empty) auto
  then show ?case using Nil.prems(3) by (simp add: Let_def complete_tasks_Nil)
next
  case (Cons l links)
  have d: "due running = []" using Cons.prems(1) by (intro due_empty) auto
  have r: "\<forall>t \<in> set (still_running running @ [(l, finishes_after e n l)]).
      length links < snd t"
    using Cons.prems(1,2) by (auto simp: still_running_def)
  have f: "\<forall>l' \<in> set links. length links \<le> finishes_after e n l'"
    using Cons.prems(2) by auto
  show ?case
    using Cons.IH [OF r f Cons.prems(3)] Cons.prems(3)
    by (simp add: Let_def d complete_tasks_Nil)
qed

lemma wave_returns:
  assumes "set (iteration_order e (new_vehicle_links s)) = new_vehicle_links s"
    and "distinct (iteration_order e (new_vehicle_links s))"
    and "\<forall>l \<in> new_vehicle_links s. card (new_vehicle_links s) \<le> finishes_after e n l"
  shows "snd (wave e n s) = None"
proof -
  have len: "length (iteration_order e (new_vehicle_links s)) = card (new_vehicle_links s)"
    using distinct_card [OF assms(2)] assms(1) by simp
  show ?thesis
    unfolding wave_def
    by (rule submit_loop_returns) (use assms(1,3) len in auto)
qed

text \<open>Whatever the scheduling, the wave moves the links whose tasks it has run.\<close>

lemma wave_moves:
  assumes "set (iteration_order e (new_vehicle_links s)) = new_vehicle_links s"
    and "distinct (iteration_order e (new_vehicle_links s))"
  shows "\<exists>D. moves s D (fst (wave e n s)) \<and>
             (snd (wave e n s) = None \<longrightarrow> D = new_vehicle_links s) \<and>
             (snd (wave e n s) = None \<or> snd (wave e n s) = Some RuntimeError)"
proof -
  have p1: "distinct (map fst [] @ iteration_order e (new_vehicle_links s))"
    using assms(2) by simp
  have p2: "set (map fst []) \<union> set (iteration_order e (new_vehicle_links s)) \<subseteq>
      new_vehicle_links s"
    using assms(1) by simp
  from submit_loop_moves [OF p1 p2, of e n "card (new_vehicle_links s)"]
  show ?thesis unfolding wave_def [symmetric] assms(1) by auto
qed

text \<open>
  C1, amended.  When the wave ends without the \<open>RuntimeError\<close> of the driver's loop, the
  pending set is empty, every link that was pending is in the processed or in the broken
  set, and nothing has left those two sets.  If the three sets were pairwise disjoint
  before the wave they are so after it, and then each of these links is in exactly one of
  the two.
\<close>

theorem wave_moves_pending_links:
  assumes "set (iteration_order e (new_vehicle_links s)) = new_vehicle_links s"
    and "distinct (iteration_order e (new_vehicle_links s))"
    and "snd (wave e n s) = None"
  shows "new_vehicle_links (fst (wave e n s)) = {} \<and>
         new_vehicle_links s \<subseteq>
           processed_vehicle_links (fst (wave e n s)) \<union>
           broken_vehicle_links (fst (wave e n s)) \<and>
         processed_vehicle_links s \<subseteq> processed_vehicle_links (fst (wave e n s)) \<and>
         broken_vehicle_links s \<subseteq> broken_vehicle_links (fst (wave e n s)) \<and>
         (disjoint3 s \<longrightarrow> disjoint3 (fst (wave e n s)))"
proof -
  from wave_moves [OF assms(1,2), of n] assms(3)
  have m: "moves s (new_vehicle_links s) (fst (wave e n s))" by auto
  then have inv:
    "new_vehicle_links (fst (wave e n s)) = {}"
    "processed_vehicle_links s \<subseteq> processed_vehicle_links (fst (wave e n s))"
    "processed_vehicle_links (fst (wave e n s)) \<subseteq>
       processed_vehicle_links s \<union> new_vehicle_links s"
    "broken_vehicle_links s \<subseteq> broken_vehicle_links (fst (wave e n s))"
    "broken_vehicle_links (fst (wave e n s)) \<subseteq> broken_vehicle_links s \<union> new_vehicle_links s"
    "new_vehicle_links s \<subseteq>
       processed_vehicle_links (fst (wave e n s)) \<union> broken_vehicle_links (fst (wave e n s))"
    "(processed_vehicle_links (fst (wave e n s)) - processed_vehicle_links s) \<inter>
     (broken_vehicle_links (fst (wave e n s)) - broken_vehicle_links s) = {}"
    unfolding moves_def by simp_all
  have dis: "disjoint3 (fst (wave e n s))" if "disjoint3 s"
    unfolding disjoint3_def
    apply (rule wave_disjoint_sets [of "new_vehicle_links s" "processed_vehicle_links s"
          "broken_vehicle_links s"])
    using that inv by (simp_all add: disjoint3_def)
  show ?thesis using inv dis by blast
qed

lemma wave_single:
  assumes "new_vehicle_links s = {link_a}"
  shows "wave env_relisted n s = (fst (parse_car_page env_relisted n link_a s), None)"
  by (simp add: wave_def assms env_relisted_def due_def still_running_def complete_tasks_def
      Let_def)

theorem wave_moves_pending_links_witness:
  "set (iteration_order env_relisted (new_vehicle_links pending_state)) =
     new_vehicle_links pending_state \<and>
   distinct (iteration_order env_relisted (new_vehicle_links pending_state)) \<and>
   snd (wave env_relisted 0 pending_state) = None \<and>
   disjoint3 pending_state \<and>
   new_vehicle_links (fst (wave env_relisted 0 pending_state)) = {} \<and>
   link_a \<in> processed_vehicle_links (fst (wave env_relisted 0 pending_state)) \<and>
   link_a \<notin> broken_vehicle_links (fst (wave env_relisted 0 pending_state)) \<and>
   disjoint3 (fst (wave env_relisted 0 pending_state))"
proof -
  have h1: "set (iteration_order env_relisted (new_vehicle_links pending_state)) =
     new_vehicle_links pending_state"
    by (simp add: env_relisted_def pending_state_def)
  have h2: "distinct (iteration_order env_relisted (new_vehicle_links pending_state))"
    by (simp add: env_relisted_def pending_state_def)
  have n: "new_vehicle_links pending_state = {link_a}" by (simp add: pending_state_def)
  have l: "link_a \<in> new_vehicle_links pending_state" by (simp add: n)
  have w: "wave env_relisted 0 pending_state =
      (fst (parse_car_page env_relisted 0 link_a pending_state), None)"
    by (rule wave_single [OF n])
  have h3: "snd (wave env_relisted 0 pending_state) = None" by (simp add: w)
  have h4: "disjoint3 pending_state"
    by (simp add: disjoint3_def pending_state_def init_crawler_def)
  note t = wave_moves_pending_links [OF h1 h2 h3]
  have p: "link_a \<in> processed_vehicle_links (fst (wave env_relisted 0 pending_state))"
    "link_a \<notin> broken_vehicle_links (fst (wave env_relisted 0 pending_state))"
    unfolding w parse_car_page_success [OF l extract_good_listing]
    by (simp_all add: pending_state_def init_crawler_def)
  show ?thesis using h1 h2 h3 h4 t p by blast
qed


section \<open>Two runs\<close>

lemma wave_relisted_0:
  "wave env_relisted 0 (update_links page_one init_crawler) =
     (init_crawler\<lparr>vehicle_data := [good_listing], processed_vehicle_links := {link_a}\<rparr>, None)"
proof -
  have u: "update_links page_one init_crawler = pending_state"
    by (simp add: update_links_def page_one_def init_crawler_def pending_state_def)
  have n: "new_vehicle_links pending_state = {link_a}" by (simp add: pending_state_def)
  have l: "link_a \<in> new_vehicle_links pending_state" by (simp add: n)
  show ?thesis
    unfolding u wave_single [OF n] parse_car_page_success [OF l extract_good_listing]
    by (simp add: pending_state_def init_crawler_def)
qed

lemma wave_relisted_1:
  "wave env_relisted 1
     (update_links page_two
        (init_crawler\<lparr>vehicle_data := [good_listing], processed_vehicle_links := {link_a}\<rparr>)) =
     (\<lparr>vehicle_data = [good_listing], new_vehicle_links = {}, broken_vehicle_links = {link_a},
       processed_vehicle_links = {link_a}\<rparr>, None)"
proof -
  define s where "s = update_links page_two
        (init_crawler\<lparr>vehicle_data := [good_listing], processed_vehicle_links := {link_a}\<rparr>)"
  have n: "new_vehicle_links s = {link_a}"
    by (simp add: s_def update_links_def page_two_def init_crawler_def)
  have l: "link_a \<in> new_vehicle_links s" by (simp add: n)
  show ?thesis
    unfolding s_def [symmetric] wave_single [OF n] parse_car_page_failure [OF l extract_bad]
    by (simp add: s_def update_links_def page_two_def init_crawler_def)
qed

lemma save_small: "length (vehicle_data s) < 1000 \<Longrightarrow> save_data 1000 ex ts s = (s, [])"
  by (simp add: save_data_def)

lemma run_relisted:
  "iterate_over_available_cars env_relisted =
     Some (Returned,
           \<lparr>vehicle_data = [good_listing], new_vehicle_links = {}, broken_vehicle_links = {link_a},
            processed_vehicle_links = {link_a}\<rparr>,
           [PageGet (Some (ascii ''p1'')), PageGet (Some (ascii ''p2'')),
            PageGet (Some (ascii ''p3''))])"
proof -
  have g0: "get_page env_relisted 0 (Some (ascii ''p1'')) = Inr page_one"
    by (simp add: get_page_def env_relisted_def)
  have g1: "get_page env_relisted (Suc 0) (Some (ascii ''p2'')) = Inr page_two"
    by (simp add: get_page_def env_relisted_def ascii_def)
  have g2: "get_page env_relisted (Suc (Suc 0)) (Some (ascii ''p3'')) = Inr last_page"
    by (simp add: get_page_def env_relisted_def ascii_def)
  have b1: "next_page_button page_one = Inr (Some (Anchor (Some (ascii ''p2''))))"
    by (simp add: next_page_button_def page_one_def)
  have b2: "next_page_button page_two = Inr (Some (Anchor (Some (ascii ''p3''))))"
    by (simp add: next_page_button_def page_two_def)
  have b3: "next_page_button last_page = Inr None"
    by (simp add: next_page_button_def last_page_def)
  have w: "website env_relisted = ascii ''p1''" by (simp add: env_relisted_def)
  have l3: "crawl_loop env_relisted (Suc (Suc 0)) last_page s evs = Some (Returned, s, evs)"
    for s evs
    by (subst crawl_loop.simps) (simp add: b3)
  have l2: "crawl_loop env_relisted (Suc 0) page_two
      (init_crawler\<lparr>vehicle_data := [good_listing], processed_vehicle_links := {link_a}\<rparr>) evs =
     Some (Returned,
           \<lparr>vehicle_data = [good_listing], new_vehicle_links = {}, broken_vehicle_links = {link_a},
            processed_vehicle_links = {link_a}\<rparr>, evs @ [PageGet (Some (ascii ''p3''))])" for evs
    by (subst crawl_loop.simps)
       (simp add: b2 wave_relisted_1 [unfolded One_nat_def] save_small g2 l3 Let_def)
  have l1: "crawl_loop env_relisted 0 page_one init_crawler evs =
     Some (Returned,
           \<lparr>vehicle_data = [good_listing], new_vehicle_links = {}, broken_vehicle_links = {link_a},
            processed_vehicle_links = {link_a}\<rparr>,
           evs @ [PageGet (Some (ascii ''p2'')), PageGet (Some (ascii ''p3''))])" for evs
    by (subst crawl_loop.simps)
       (simp add: b1 wave_relisted_0 save_small g1 l2 Let_def)
  show ?thesis
    by (simp add: iterate_over_available_cars_def w g0 l1)
qed

lemma links_differ: "link_a \<noteq> link_b"
  by (simp add: link_a_def link_b_def ascii_def)

lemma extract_fast_failure: "extract_listing env_fast_failure n l = Inl MissingSchema"
  by (simp add: extract_listing_def env_fast_failure_def)

lemma wave_fast_failure:
  "wave env_fast_failure 0 (update_links page_two_links init_crawler) =
     (\<lparr>vehicle_data = [], new_vehicle_links = {link_b}, broken_vehicle_links = {link_a},
       processed_vehicle_links = {}\<rparr>, Some RuntimeError)"
proof -
  define s where "s = update_links page_two_links init_crawler"
  have n: "new_vehicle_links s = {link_a, link_b}"
    by (auto simp: s_def update_links_def page_two_links_def init_crawler_def)
  have c: "card {link_a, link_b} = 2" using links_differ by simp
  have o: "iteration_order env_fast_failure {link_a, link_b} = [link_a, link_b]"
    by (simp add: env_fast_failure_def)
  have f: "finishes_after env_fast_failure 0 link_a = 0" by (simp add: env_fast_failure_def)
  have l: "link_a \<in> new_vehicle_links s" by (simp add: n)
  have t: "complete_tasks env_fast_failure 0 [link_a] s =
      \<lparr>vehicle_data = [], new_vehicle_links = {link_b}, broken_vehicle_links = {link_a},
       processed_vehicle_links = {}\<rparr>"
  proof -
    have "complete_tasks env_fast_failure 0 [link_a] s =
        s\<lparr>new_vehicle_links := new_vehicle_links s - {link_a},
          broken_vehicle_links := insert link_a (broken_vehicle_links s)\<rparr>"
      by (simp add: complete_tasks_def parse_car_page_failure [OF l extract_fast_failure])
    also have "\<dots> = \<lparr>vehicle_data = [], new_vehicle_links = {link_b},
        broken_vehicle_links = {link_a}, processed_vehicle_links = {}\<rparr>"
      using links_differ
      by (auto simp: s_def update_links_def page_two_links_def init_crawler_def)
    finally show ?thesis .
  qed
  have c1: "card {link_b} \<noteq> 2" by simp
  show ?thesis
    unfolding s_def [symmetric] wave_def n c o
    by (simp add: due_def still_running_def f t c n complete_tasks_Nil c1 Let_def)
qed

lemma run_fast_failure:
  "iterate_over_available_cars env_fast_failure =
     Some (Raised RuntimeError,
           \<lparr>vehicle_data = [], new_vehicle_links = {link_b}, broken_vehicle_links = {link_a},
            processed_vehicle_links = {}\<rparr>,
           [PageGet (Some (ascii ''p1''))])"
proof -
  have g0: "get_page env_fast_failure 0 (Some (ascii ''p1'')) = Inr page_two_links"
    by (simp add: get_page_def env_fast_failure_def)
  have b1: "next_page_button page_two_links = Inr (Some (Anchor (Some (ascii ''p2''))))"
    by (simp add: next_page_button_def page_two_links_def)
  have w: "website env_fast_failure = ascii ''p1''" by (simp add: env_fast_failure_def)
  have l1: "crawl_loop env_fast_failure 0 page_two_links init_crawler evs =
     Some (Raised RuntimeError,
           \<lparr>vehicle_data = [], new_vehicle_links = {link_b}, broken_vehicle_links = {link_a},
            processed_vehicle_links = {}\<rparr>, evs)" for evs
    by (subst crawl_loop.simps) (simp add: b1 wave_fast_failure Let_def)
  show ?thesis
    by (simp add: iterate_over_available_cars_def w g0 l1)
qed

text \<open>
  C1 as stated fails twice.  On the first site \<open>link_a\<close> is listed on the first page and
  processed in the first wave, listed again on the second page and broken in the second
  wave, so at the end of its wave it is in both sets.  On the second site the task of
  \<open>link_a\<close> ends while the driver's loop still iterates the pending set; the loop raises
  and \<open>link_b\<close>, a link of the same wave, stays pending.
\<close>

theorem wave_leaves_links_counterexample:
  "iterate_over_available_cars env_relisted =
     Some (Returned,
           \<lparr>vehicle_data = [good_listing], new_vehicle_links = {},
            broken_vehicle_links = {link_a}, processed_vehicle_links = {link_a}\<rparr>,
           [PageGet (Some (ascii ''p1'')), PageGet (Some (ascii ''p2'')),
            PageGet (Some (ascii ''p3''))]) \<and>
   link_a \<in> set (vehicle_hrefs page_one) \<and> link_a \<in> set (vehicle_hrefs page_two) \<and>
   new_vehicle_links (update_links page_two_links init_crawler) = {link_a, link_b} \<and>
   wave env_fast_failure 0 (update_links page_two_links init_crawler) =
     (\<lparr>vehicle_data = [], new_vehicle_links = {link_b}, broken_vehicle_links = {link_a},
       processed_vehicle_links = {}\<rparr>, Some RuntimeError)"
  using run_relisted wave_fast_failure
  by (auto simp: page_one_def page_two_def update_links_def page_two_links_def init_crawler_def)

text \<open>
  C4 at a link whose fetch fails at once: the exception is caught in the task and the link
  is in the broken set, but the task's \<open>remove\<close> changes the set that the driver's loop
  iterates, and the driver ends with \<open>RuntimeError\<close> before the other link has a task.
\<close>

theorem fast_failure_aborts_driver:
  "extract_listing env_fast_failure 0 link_a = Inl MissingSchema \<and>
   iterate_over_available_cars env_fast_failure =
     Some (Raised RuntimeError,
           \<lparr>vehicle_data = [], new_vehicle_links = {link_b}, broken_vehicle_links = {link_a},
            processed_vehicle_links = {}\<rparr>,
           [PageGet (Some (ascii ''p1''))])"
  using run_fast_failure extract_fast_failure by simp


section \<open>The end of the pagination\<close>

text \<open>The wave reads the listing pages only, not the result pages.\<close>

lemma wave_requests_get: "wave (e\<lparr>requests_get := g\<rparr>) n s = wave e n s"
proof -
  have c: "complete_tasks (e\<lparr>requests_get := g\<rparr>) n links t = complete_tasks e n links t"
    for links t
    by (simp add: complete_tasks_def parse_car_page_def parse_car_page_steps_def
        extract_listing_def)
  have "submit_loop (e\<lparr>requests_get := g\<rparr>) n size0 links running t =
      submit_loop e n size0 links running t" for size0 links running t
    by (induction links arbitrary: running t) (simp_all add: c Let_def)
  then show ?thesis by (simp add: wave_def)
qed

text \<open>
  A page whose \<open>li\<close> of class \<open>next\<close> holds no anchor ends the loop: the driver returns,
  with the crawler and the events as they are, so without another fetch.  A page that has
  no such \<open>li\<close> at all makes the second \<open>find\<close> raise.
\<close>

lemma crawl_loop_no_anchor:
  "li_next page = Some (Li None) \<Longrightarrow> crawl_loop e n page s evs = Some (Returned, s, evs)"
  by (subst crawl_loop.simps) (simp add: next_page_button_def)

lemma crawl_loop_no_li:
  "li_next page = None \<Longrightarrow> crawl_loop e n page s evs = Some (Raised AttributeError, s, evs)"
  by (subst crawl_loop.simps) (simp add: next_page_button_def)

text \<open>
  C6 at a page without a pager: the next-page control is absent, and the driver ends with
  \<open>AttributeError\<close> instead of returning.
\<close>

theorem no_pager_page_raises:
  "iterate_over_available_cars env_no_pager =
     Some (Raised AttributeError, init_crawler, [PageGet (Some (ascii ''p1''))])"
  by (simp add: iterate_over_available_cars_def env_no_pager_def env_relisted_def get_page_def
      crawl_loop_no_li no_pager_page_def)


section \<open>Failures of the page fetches\<close>

lemma crawl_loop_fetch_fails:
  assumes "next_page_button page = Inr (Some button)"
    and "snd (wave e n (update_links page s)) = None"
    and "get_page e (Suc n) (href button) = Inl err"
  shows "crawl_loop e n page s evs =
     Some (Raised err,
           fst (save_data 1000 (data_folder_exists e n) (now e n)
                  (fst (wave e n (update_links page s)))),
           evs @ snd (save_data 1000 (data_folder_exists e n) (now e n)
                        (fst (wave e n (update_links page s)))) @
           [PageGet (href button)])"
  by (subst crawl_loop.simps) (simp add: assms Let_def)

text \<open>
  C7 as stated fails: the first page is fetched, its wave runs, and the failure of the
  second page's fetch ends the run with that error.
\<close>

theorem later_page_failure_counterexample:
  "iterate_over_available_cars env_page_two_down =
     Some (Raised ConnectionError,
           init_crawler\<lparr>vehicle_data := [good_listing], processed_vehicle_links := {link_a}\<rparr>,
           [PageGet (Some (ascii ''p1'')), PageGet (Some (ascii ''p2''))])"
proof -
  have g0: "get_page env_page_two_down 0 (Some (ascii ''p1'')) = Inr page_one"
    by (simp add: get_page_def env_page_two_down_def)
  have g1: "get_page env_page_two_down (Suc 0) (href (Anchor (Some (ascii ''p2'')))) =
      Inl ConnectionError"
    by (simp add: get_page_def env_page_two_down_def ascii_def)
  have b1: "next_page_button page_one = Inr (Some (Anchor (Some (ascii ''p2''))))"
    by (simp add: next_page_button_def page_one_def)
  have w: "website env_page_two_down = ascii ''p1''"
    by (simp add: env_page_two_down_def env_relisted_def)
  have wv: "wave env_page_two_down 0 (update_links page_one init_crawler) =
      (init_crawler\<lparr>vehicle_data := [good_listing], processed_vehicle_links := {link_a}\<rparr>,
       None)"
    unfolding env_page_two_down_def wave_requests_get by (rule wave_relisted_0)
  have wn: "snd (wave env_page_two_down 0 (update_links page_one init_crawler)) = None"
    by (simp add: wv)
  show ?thesis
    by (simp add: iterate_over_available_cars_def w g0 crawl_loop_fetch_fails [OF b1 wn g1] wv
        save_small)
qed

text \<open>
  C7, amended.  Every fetch of a result page is fatal when it fails: the first one ends the
  run with the error before anything else has happened, and a later one, reached when the
  wave of the page before it has ended without an exception, ends the run with the error
  after that wave and its flush check.
\<close>

theorem page_fetch_failure_is_fatal:
  "(requests_get e 0 (website e) = Inl err \<longrightarrow>
      iterate_over_available_cars e =
        Some (Raised err, init_crawler, [PageGet (Some (website e))])) \<and>
   (next_page_button page = Inr (Some button) \<and>
    snd (wave e n (update_links page s)) = None \<and>
    get_page e (Suc n) (href button) = Inl err \<longrightarrow>
      crawl_loop e n page s evs =
        Some (Raised err,
              fst (save_data 1000 (data_folder_exists e n) (now e n)
                     (fst (wave e n (update_links page s)))),
              evs @ snd (save_data 1000 (data_folder_exists e n) (now e n)
                           (fst (wave e n (update_links page s)))) @
              [PageGet (href button)]))"
  using crawl_loop_fetch_fails [of page button e n s err evs]
  by (simp add: iterate_over_available_cars_def get_page_def)

theorem page_fetch_failure_is_fatal_witness:
  "requests_get env_site_down 0 (website env_site_down) = Inl ConnectionError \<and>
   iterate_over_available_cars env_site_down =
     Some (Raised ConnectionError, init_crawler, [PageGet (Some (ascii ''p1''))]) \<and>
   next_page_button page_one = Inr (Some (Anchor (Some (ascii ''p2'')))) \<and>
   snd (wave env_page_two_down 0 (update_links page_one init_crawler)) = None \<and>
   get_page env_page_two_down (Suc 0) (Some (ascii ''p2'')) = Inl ConnectionError \<and>
   crawl_loop env_page_two_down 0 page_one init_crawler [] =
     Some (Raised ConnectionError,
           init_crawler\<lparr>vehicle_data := [good_listing], processed_vehicle_links := {link_a}\<rparr>,
           [PageGet (Some (ascii ''p2''))])"
proof -
  have h1: "requests_get env_site_down 0 (website env_site_down) = Inl ConnectionError"
    by (simp add: env_site_down_def)
  have w: "website env_site_down = ascii ''p1''"
    by (simp add: env_site_down_def env_relisted_def)
  have b1: "next_page_button page_one = Inr (Some (Anchor (Some (ascii ''p2''))))"
    by (simp add: next_page_button_def page_one_def)
  have g1: "get_page env_page_two_down (Suc 0) (Some (ascii ''p2'')) = Inl ConnectionError"
    by (simp add: get_page_def env_page_two_down_def ascii_def)
  have wv: "wave env_page_two_down 0 (update_links page_one init_crawler) =
      (init_crawler\<lparr>vehicle_data := [good_listing], processed_vehicle_links := {link_a}\<rparr>,
       None)"
    unfolding env_page_two_down_def wave_requests_get by (rule wave_relisted_0)
  note t1 = page_fetch_failure_is_fatal [where e = env_site_down and err = ConnectionError,
      THEN conjunct1]
  note t2 = page_fetch_failure_is_fatal [where e = env_page_two_down and err = ConnectionError
      and page = page_one and button = "Anchor (Some (ascii ''p2''))" and n = 0
      and s = init_crawler and evs = "[]", THEN conjunct2]
  show ?thesis
    using h1 b1 g1 t1 t2 by (simp add: w wv save_small)
qed


section \<open>Optional and mandatory sections of a listing page\<close>










end
